theory Spec2Isabelle
  imports Main "HOL-Library.Stream"
begin

section \<open>Regular expressions of the validator\<close>

text \<open>
  \<^verbatim>\<open>service.go\<close> validates its inputs with two compiled patterns of Go's
  \<^verbatim>\<open>regexp\<close> package, \<^verbatim>\<open>URLTemplate\<close> and \<^verbatim>\<open>linkTemplate\<close>. Both start
  with \<^verbatim>\<open>^\<close> and end with \<^verbatim>\<open>$\<close> and carry no flag, so \<^verbatim>\<open>MatchString\<close>
  holds exactly when the whole string belongs to the language of the pattern's
  body. The body is kept as data; strings are byte lists, and every class of the
  two patterns holds ASCII characters only, so a string with any other byte is
  rejected the way Go rejects a string with any other rune.
\<close>

datatype regexp =
    Zero
  | One
  | Class "char list"
  | Alt regexp regexp
  | Cat regexp regexp
  | Star regexp

text \<open>Literal text, \<^verbatim>\<open>r?\<close>, \<^verbatim>\<open>r+\<close> and \<^verbatim>\<open>r{n}\<close>.\<close>

fun Lit :: "string \<Rightarrow> regexp" where
  "Lit [] = One"
| "Lit (c # cs) = Cat (Class [c]) (Lit cs)"

definition Opt :: "regexp \<Rightarrow> regexp" where
  "Opt r = Alt r One"

definition Many1 :: "regexp \<Rightarrow> regexp" where
  "Many1 r = Cat r (Star r)"

fun Rep :: "nat \<Rightarrow> regexp \<Rightarrow> regexp" where
  "Rep 0 r = One"
| "Rep (Suc n) r = Cat r (Rep n r)"

subsection \<open>The matcher\<close>

fun nullable :: "regexp \<Rightarrow> bool" where
  "nullable Zero = False"
| "nullable One = True"
| "nullable (Class cs) = False"
| "nullable (Alt r s) = (nullable r \<or> nullable s)"
| "nullable (Cat r s) = (nullable r \<and> nullable s)"
| "nullable (Star r) = True"

fun deriv :: "char \<Rightarrow> regexp \<Rightarrow> regexp" where
  "deriv c Zero = Zero"
| "deriv c One = Zero"
| "deriv c (Class cs) = (if c \<in> set cs then One else Zero)"
| "deriv c (Alt r s) = Alt (deriv c r) (deriv c s)"
| "deriv c (Cat r s) =
     (if nullable r then Alt (Cat (deriv c r) s) (deriv c s) else Cat (deriv c r) s)"
| "deriv c (Star r) = Cat (deriv c r) (Star r)"

fun matches :: "regexp \<Rightarrow> string \<Rightarrow> bool" where
  "matches r [] = nullable r"
| "matches r (c # cs) = matches (deriv c r) cs"

definition MatchString :: "regexp \<Rightarrow> string \<Rightarrow> bool" where
  "MatchString re s = matches re s"

subsection \<open>The language of a pattern\<close>

definition conc :: "string set \<Rightarrow> string set \<Rightarrow> string set" where
  "conc A B = {u @ v | u v. u \<in> A \<and> v \<in> B}"

inductive_set star :: "string set \<Rightarrow> string set" for A :: "string set" where
  star_nil: "[] \<in> star A"
| star_app: "u \<in> A \<Longrightarrow> v \<in> star A \<Longrightarrow> u @ v \<in> star A"

fun lang :: "regexp \<Rightarrow> string set" where
  "lang Zero = {}"
| "lang One = {[]}"
| "lang (Class cs) = {[c] | c. c \<in> set cs}"
| "lang (Alt r s) = lang r \<union> lang s"
| "lang (Cat r s) = conc (lang r) (lang s)"
| "lang (Star r) = star (lang r)"

subsection \<open>The two patterns\<close>

text \<open>\<^verbatim>\<open>\w\<close> of Go's syntax is \<^verbatim>\<open>[0-9A-Za-z_]\<close>.\<close>

definition word_chars :: "char list" where
  "word_chars = ''0123456789ABCDEFGHIJKLMNOPQRSTUVWXYZabcdefghijklmnopqrstuvwxyz_''"

text \<open>\<^verbatim>\<open>[\w.-]\<close>, which the pattern also writes \<^verbatim>\<open>[\w\.-]\<close>.\<close>

definition host_chars :: "char list" where
  "host_chars = word_chars @ ''.-''"

text \<open>\<^verbatim>\<open>[\w\-\._~:/?#[\]@!\$&'\(\)\*\+,;=.]\<close>; the apostrophe is character 0x27.\<close>

definition tail_chars :: "char list" where
  "tail_chars = word_chars @ ''-._~:/?#[]@!$&'' @ [CHR 0x27] @ ''()*+,;=.''"

text \<open>
  \<^verbatim>\<open>^(?:http(s)?:\/\/)?[\w.-]+(?:\.[\w\.-]+)+[\w\-\._~:/?#[\]@!\$&'\(\)\*\+,;=.]+$\<close>
\<close>

definition URLTemplate :: regexp where
  "URLTemplate =
     Cat (Opt (Cat (Lit ''http'') (Cat (Opt (Lit ''s'')) (Lit ''://''))))
      (Cat (Many1 (Class host_chars))
        (Cat (Many1 (Cat (Lit ''.'') (Many1 (Class host_chars))))
             (Many1 (Class tail_chars))))"

definition lengthLink :: nat where
  "lengthLink = 10"

text \<open>\<^verbatim>\<open>^[0-9a-zA-Z_]{10}$\<close>\<close>

definition linkTemplate :: regexp where
  "linkTemplate = Rep 10 (Class word_chars)"

section \<open>The table \<^verbatim>\<open>links\<close>\<close>

text \<open>
  \<^verbatim>\<open>scheme.sql\<close> declares the only table: \<^verbatim>\<open>link char(10)\<close> with the primary
  key \<^verbatim>\<open>link_pk\<close>, and \<^verbatim>\<open>original_url varchar(2048) NOT NULL\<close> with the constraint
  \<^verbatim>\<open>original_url_unique\<close>. A table is the list of its rows, a row the pair of
  \<^verbatim>\<open>link\<close> and \<^verbatim>\<open>original_url\<close>. The texts below are what the driver's errors
  print (\<^verbatim>\<open>err.Error()\<close>): \<^verbatim>\<open>Create\<close> compares one of them literally.
\<close>

type_synonym row = "string \<times> string"

definition link_too_long :: string where
  "link_too_long = ''pq: value too long for type character(10)''"

definition url_too_long :: string where
  "url_too_long = ''pq: value too long for type character varying(2048)''"

definition link_pk_violation :: string where
  "link_pk_violation =
     ''pq: duplicate key value violates unique constraint '' @ [CHR 0x22] @ ''link_pk'' @ [CHR 0x22]"

definition original_url_unique_violation :: string where
  "original_url_unique_violation =
     ''pq: duplicate key value violates unique constraint '' @ [CHR 0x22] @
     ''original_url_unique'' @ [CHR 0x22]"

text \<open>
  \<^verbatim>\<open>INSERT INTO links (link, original_url) VALUES ($1, $2)\<close>. The values are first
  coerced to the column types, in column order: a value longer than the column is
  refused, a shorter \<^verbatim>\<open>link\<close> is padded with blanks to ten characters. (The
  database cuts a longer value whose excess is all blanks instead of refusing it;
  the service sends only codes and URLs that matched their pattern, which have no
  blank.) Then the primary key is checked, then the uniqueness of
  \<^verbatim>\<open>original_url\<close>: the index of the primary key is the older one. A refused
  statement leaves the table as it was.
\<close>

definition insert_row :: "string \<Rightarrow> string \<Rightarrow> row list \<Rightarrow> string option \<times> row list" where
  "insert_row link url t =
     (if 10 < length link then (Some link_too_long, t)
      else if 2048 < length url then (Some url_too_long, t)
      else let l = link @ replicate (10 - length link) (CHR '' '') in
        if l \<in> set (map fst t) then (Some link_pk_violation, t)
        else if url \<in> set (map snd t) then (Some original_url_unique_violation, t)
        else (None, t @ [(l, url)]))"

section \<open>The world a request runs in\<close>

text \<open>
  A request talks to the shared database and draws from the process-wide random
  generator of \<^verbatim>\<open>math/rand\<close>. Both are outside the repository, so what they
  do is an input of the model:
  \<^item> \<open>rng\<close> is the sequence of raw values the generator will deliver;
  \<^item> \<open>sched\<close> says what the environment does at each statement this request sends,
    one event per statement: the statement fails in the driver with the given
    error text (\<open>Fault\<close>), or other requests of the service commit the given
    rows just before it runs (\<open>Commit\<close>). Past the end of the schedule the
    environment is quiet.
\<close>

datatype event = Fault string | Commit "row list"

record world =
  links :: "row list"
  sched :: "event list"
  rng :: "nat stream"

text \<open>
  The other requests are \<^verbatim>\<open>Create\<close> calls of the same service: they insert a
  validated URL under a generated code, through the same constrained insert.
\<close>

fun commit_rows :: "row list \<Rightarrow> row list \<Rightarrow> row list" where
  "commit_rows [] t = t"
| "commit_rows ((l, u) # rs) t =
     commit_rows rs
       (if MatchString linkTemplate l \<and> MatchString URLTemplate u
        then snd (insert_row l u t) else t)"

definition arrive :: "world \<Rightarrow> string option \<times> world" where
  "arrive w =
     (case sched w of
        [] \<Rightarrow> (None, w)
      | Fault m # es \<Rightarrow> (Some m, w\<lparr>sched := es\<rparr>)
      | Commit rs # es \<Rightarrow> (None, w\<lparr>links := commit_rows rs (links w), sched := es\<rparr>))"

text \<open>
  \<^verbatim>\<open>database/sql\<close>: \<^verbatim>\<open>row.Scan\<close> returns \<^verbatim>\<open>sql.ErrNoRows\<close> when the query
  selected nothing, and the driver's error when the query failed.
\<close>

datatype sql_error = ErrNoRows | DriverError string

text \<open>\<^verbatim>\<open>SELECT link FROM links WHERE original_url = $1;\<close> followed by \<^verbatim>\<open>Scan\<close>.\<close>

definition select_link :: "string \<Rightarrow> world \<Rightarrow> (sql_error + string) \<times> world" where
  "select_link url w =
     (case arrive w of
        (Some m, w1) \<Rightarrow> (Inl (DriverError m), w1)
      | (None, w1) \<Rightarrow>
          (case find (\<lambda>r. snd r = url) (links w1) of
             None \<Rightarrow> (Inl ErrNoRows, w1)
           | Some r \<Rightarrow> (Inr (fst r), w1)))"

text \<open>
  \<^verbatim>\<open>SELECT original_url FROM links WHERE link = $1;\<close> followed by \<^verbatim>\<open>Scan\<close>.
  \<^verbatim>\<open>Get\<close> sends only strings of ten word characters, for which the blank-padded
  comparison of \<^verbatim>\<open>char(10)\<close> is equality.
\<close>

definition select_original_url :: "string \<Rightarrow> world \<Rightarrow> (sql_error + string) \<times> world" where
  "select_original_url link w =
     (case arrive w of
        (Some m, w1) \<Rightarrow> (Inl (DriverError m), w1)
      | (None, w1) \<Rightarrow>
          (case find (\<lambda>r. fst r = link) (links w1) of
             None \<Rightarrow> (Inl ErrNoRows, w1)
           | Some r \<Rightarrow> (Inr (snd r), w1)))"

text \<open>\<^verbatim>\<open>s.Database.Exec("INSERT INTO links ...", link, url)\<close>: the error text, if any.\<close>

definition exec_insert :: "string \<Rightarrow> string \<Rightarrow> world \<Rightarrow> string option \<times> world" where
  "exec_insert link url w =
     (case arrive w of
        (Some m, w1) \<Rightarrow> (Some m, w1)
      | (None, w1) \<Rightarrow>
          (case insert_row link url (links w1) of
             (e, t) \<Rightarrow> (e, w1\<lparr>links := t\<rparr>)))"

section \<open>The service\<close>

datatype service_error = ErrReqProc | ErrInvalidURL | ErrInvalidLink | ErrURLNotFound

text \<open>
  A method returns the pair Go returns: the response pointer (\<open>None\<close> for
  \<^verbatim>\<open>nil\<close>) and the error (\<open>None\<close> for \<^verbatim>\<open>nil\<close>).
\<close>

type_synonym reply = "string option \<times> service_error option"

subsection \<open>\<^verbatim>\<open>generateRandomCharacters\<close>\<close>

definition alphabet :: "char list" where
  "alphabet = ''0123456789ABCDEFGHIJKLMNOPQRSTUVWXYZ_abcdefghijklmnopqrstuvwxyz''"

text \<open>
  \<^verbatim>\<open>rand.Intn(n)\<close>, for \<open>0 < n\<close>: a value below \<open>n\<close>, and the generator moves on.
  The source calls it with the length of the alphabet. (The source spells the name
  of \<^verbatim>\<open>generateRandomCharacters\<close> with one Cyrillic letter; it is written in Latin
  letters here.)
\<close>

definition Intn :: "nat \<Rightarrow> nat stream \<Rightarrow> nat \<times> nat stream" where
  "Intn n g = (shd g mod n, stl g)"

fun generateRandomCharacters :: "nat \<Rightarrow> nat stream \<Rightarrow> string \<times> nat stream" where
  "generateRandomCharacters 0 g = ([], g)"
| "generateRandomCharacters (Suc n) g =
     (case Intn (length alphabet) g of
        (i, g1) \<Rightarrow>
          (case generateRandomCharacters n g1 of
             (cs, g2) \<Rightarrow> (alphabet ! i # cs, g2)))"

subsection \<open>\<^verbatim>\<open>Create\<close>\<close>

definition UCViolation :: string where
  "UCViolation =
     ''pq: duplicate key value violates unique constraint '' @ [CHR 0x22] @ ''link_pk'' @ [CHR 0x22]"

text \<open>
  The \<^verbatim>\<open>for\<close> loop of \<^verbatim>\<open>Create\<close>. It has no bound, so the model is a partial
  function: \<open>None\<close> is the loop that never ends. What \<^verbatim>\<open>log.Printf\<close> writes is
  not part of the model, and \<^verbatim>\<open>ctx\<close> is not used by the methods.
\<close>

partial_function (option) Create_loop :: "string \<Rightarrow> world \<Rightarrow> (reply \<times> world) option" where
  "Create_loop url w =
     (case generateRandomCharacters lengthLink (rng w) of
        (link, g) \<Rightarrow>
          (case exec_insert link url (w\<lparr>rng := g\<rparr>) of
             (Some e, w2) \<Rightarrow>
               if e \<noteq> UCViolation then Some ((None, Some ErrReqProc), w2)
               else Create_loop url w2
           | (None, w2) \<Rightarrow> Some ((Some link, None), w2)))"

definition Create :: "string \<Rightarrow> world \<Rightarrow> (reply \<times> world) option" where
  "Create url w =
     (if \<not> MatchString URLTemplate url then Some ((None, Some ErrInvalidURL), w)
      else case select_link url w of
          (Inl (DriverError m), w1) \<Rightarrow> Some ((None, Some ErrReqProc), w1)
        | (Inr link, w1) \<Rightarrow> Some ((Some link, None), w1)
        | (Inl ErrNoRows, w1) \<Rightarrow> Create_loop url w1)"

subsection \<open>\<^verbatim>\<open>Get\<close>\<close>

definition Get :: "string \<Rightarrow> world \<Rightarrow> reply \<times> world" where
  "Get link w =
     (if \<not> MatchString linkTemplate link then ((None, Some ErrInvalidLink), w)
      else case select_original_url link w of
          (Inl (DriverError m), w1) \<Rightarrow> ((None, Some ErrReqProc), w1)
        | (Inl ErrNoRows, w1) \<Rightarrow> ((None, Some ErrURLNotFound), w1)
        | (Inr url, w1) \<Rightarrow> ((Some url, None), w1))"

subsection \<open>Sequences of calls\<close>

datatype call = CallCreate string | CallGet string

fun run :: "call list \<Rightarrow> world \<Rightarrow> (reply list \<times> world) option" where
  "run [] w = Some ([], w)"
| "run (CallCreate u # cs) w =
     (case Create u w of
        None \<Rightarrow> None
      | Some (r, w1) \<Rightarrow> map_option (\<lambda>(rs, w2). (r # rs, w2)) (run cs w1))"
| "run (CallGet l # cs) w =
     (case Get l w of
        (r, w1) \<Rightarrow> map_option (\<lambda>(rs, w2). (r # rs, w2)) (run cs w1))"

section \<open>Predicates on tables and worlds\<close>

text \<open>
  The invariant of the data model: no two rows share a code and no two rows share
  a URL, so the rows are a one-to-one correspondence of codes and URLs.
\<close>

definition bijective_table :: "row list \<Rightarrow> bool" where
  "bijective_table t \<longleftrightarrow> distinct (map fst t) \<and> distinct (map snd t)"

text \<open>Every stored code has the shape of a short link; every stored URL fits its column.\<close>

definition codes_valid :: "row list \<Rightarrow> bool" where
  "codes_valid t \<longleftrightarrow> list_all (\<lambda>r. MatchString linkTemplate (fst r)) t"

definition urls_fit :: "row list \<Rightarrow> bool" where
  "urls_fit t \<longleftrightarrow> list_all (\<lambda>r. length (snd r) \<le> 2048) t"

text \<open>The next statement is answered by the database, not failed by the driver.\<close>

definition no_fault :: "world \<Rightarrow> bool" where
  "no_fault w = (case sched w of Fault m # es \<Rightarrow> False | _ \<Rightarrow> True)"

text \<open>The table a statement sent in world \<open>w\<close> works on.\<close>

definition seen :: "world \<Rightarrow> row list" where
  "seen w = links (snd (arrive w))"

text \<open>
  Worlds for the examples: a table, a schedule, and the generator that delivers
  \<open>n\<close>, \<open>n + 1\<close>, \<open>n + 2\<close> and so on. Started at \<open>0\<close> it makes
  \<^verbatim>\<open>Create\<close> draw the codes \<^verbatim>\<open>0123456789\<close>, \<^verbatim>\<open>ABCDEFGHIJ\<close>, ...
\<close>

definition world_of :: "row list \<Rightarrow> event list \<Rightarrow> nat \<Rightarrow> world" where
  "world_of t es n = \<lparr>links = t, sched = es, rng = siterate Suc n\<rparr>"

section \<open>Properties of the matcher\<close>

lemma nullable_iff: "nullable r \<longleftrightarrow> [] \<in> lang r"
  by (induction r) (auto simp: conc_def intro: star_nil)

lemma conc_Cons_iff:
  "c # w \<in> conc A B \<longleftrightarrow>
     ([] \<in> A \<and> c # w \<in> B) \<or> (\<exists>u v. w = u @ v \<and> c # u \<in> A \<and> v \<in> B)"
  unfolding conc_def by (auto simp: Cons_eq_append_conv)

lemma star_Cons_split:
  assumes "w \<in> star A" and "w = c # x"
  shows "\<exists>u v. x = u @ v \<and> c # u \<in> A \<and> v \<in> star A"
  using assms
proof (induction rule: star.induct)
  case star_nil
  then show ?case by simp
next
  case (star_app u v)
  show ?case
  proof (cases u)
    case Nil
    with star_app show ?thesis by simp
  next
    case (Cons d u')
    with star_app.prems have "d = c" and "x = u' @ v" by simp_all
    with Cons star_app.hyps show ?thesis by blast
  qed
qed

lemma star_Cons_iff:
  "c # w \<in> star A \<longleftrightarrow> (\<exists>u v. w = u @ v \<and> c # u \<in> A \<and> v \<in> star A)"
proof
  assume "c # w \<in> star A"
  then show "\<exists>u v. w = u @ v \<and> c # u \<in> A \<and> v \<in> star A"
    by (rule star_Cons_split) simp
next
  assume "\<exists>u v. w = u @ v \<and> c # u \<in> A \<and> v \<in> star A"
  then obtain u v where "w = u @ v" "c # u \<in> A" "v \<in> star A" by blast
  then show "c # w \<in> star A"
    using star_app [of "c # u" A v] by simp
qed

lemma lang_deriv: "w \<in> lang (deriv c r) \<longleftrightarrow> c # w \<in> lang r"
proof (induction r arbitrary: w)
  case (Cat r s)
  then show ?case
    by (auto simp: conc_Cons_iff nullable_iff) (auto simp: conc_def)
next
  case (Star r)
  then show ?case
    by (auto simp: star_Cons_iff) (auto simp: conc_def)
qed auto

lemma matches_iff: "matches r w \<longleftrightarrow> w \<in> lang r"
  by (induction w arbitrary: r) (simp_all add: nullable_iff lang_deriv)

lemma MatchString_iff: "MatchString re s \<longleftrightarrow> s \<in> lang re"
  by (simp add: MatchString_def matches_iff)

lemma concI: "u \<in> A \<Longrightarrow> v \<in> B \<Longrightarrow> u @ v \<in> conc A B"
  by (auto simp: conc_def)

lemma conc_Class_Nil: "[] \<notin> conc {[c] | c. c \<in> set cs} B"
  by (simp add: conc_def)

lemma conc_Class_Cons: "c # w \<in> conc {[d] | d. d \<in> set cs} B \<longleftrightarrow> c \<in> set cs \<and> w \<in> B"
  by (auto simp: conc_Cons_iff)

lemma lang_Rep_Class:
  "s \<in> lang (Rep n (Class cs)) \<longleftrightarrow> length s = n \<and> set s \<subseteq> set cs"
proof (induction n arbitrary: s)
  case 0
  then show ?case by auto
next
  case (Suc n)
  show ?case
  proof (cases s)
    case Nil
    then show ?thesis by (simp add: conc_Class_Nil)
  next
    case (Cons c s')
    then show ?thesis using Suc [of s'] by (auto simp: conc_Class_Cons)
  qed
qed

lemma MatchString_linkTemplate:
  "MatchString linkTemplate s \<longleftrightarrow> length s = 10 \<and> set s \<subseteq> set word_chars"
  by (simp add: MatchString_iff linkTemplate_def lang_Rep_Class)

lemma length_alphabet: "length alphabet = 63"
  by (simp add: alphabet_def)

lemma distinct_alphabet: "distinct alphabet"
  by (simp add: alphabet_def)

lemma set_alphabet: "set alphabet = set word_chars"
  by code_simp

lemma generateRandomCharacters_Suc:
  "generateRandomCharacters (Suc n) g =
     (alphabet ! (shd g mod 63) # fst (generateRandomCharacters n (stl g)),
      snd (generateRandomCharacters n (stl g)))"
  by (cases "generateRandomCharacters n (stl g)") (simp add: Intn_def length_alphabet)

lemma generateRandomCharacters_eq:
  "generateRandomCharacters n g = (map (\<lambda>i. alphabet ! (g !! i mod 63)) [0..<n], sdrop n g)"
proof (induction n arbitrary: g)
  case 0
  then show ?case by simp
next
  case (Suc n)
  have "map (\<lambda>i. alphabet ! (g !! i mod 63)) [0..<Suc n] =
        alphabet ! (shd g mod 63) # map (\<lambda>i. alphabet ! (stl g !! i mod 63)) [0..<n]"
    by (simp add: upt_conv_Cons map_Suc_upt [symmetric] del: upt_Suc)
  with Suc [of "stl g"] show ?case
    by (simp add: generateRandomCharacters_Suc del: generateRandomCharacters.simps(2) upt_Suc)
qed

lemma generateRandomCharacters_length:
  "length (fst (generateRandomCharacters n g)) = n"
  by (induction n arbitrary: g) (simp_all add: generateRandomCharacters_Suc del: generateRandomCharacters.simps(2))

lemma generateRandomCharacters_set:
  "set (fst (generateRandomCharacters n g)) \<subseteq> set alphabet"
proof (induction n arbitrary: g)
  case 0
  then show ?case by simp
next
  case (Suc n)
  have "shd g mod 63 < length alphabet" by (simp add: length_alphabet)
  then have "alphabet ! (shd g mod 63) \<in> set alphabet" by (rule nth_mem)
  with Suc [of "stl g"] show ?case
    by (simp add: generateRandomCharacters_Suc del: generateRandomCharacters.simps(2))
qed

lemma generated_link_ok:
  "generateRandomCharacters lengthLink g = (link, g') \<Longrightarrow> MatchString linkTemplate link"
  using generateRandomCharacters_length [of lengthLink g] generateRandomCharacters_set [of lengthLink g]
  by (simp add: MatchString_linkTemplate lengthLink_def set_alphabet)

lemma replicate_in_star:
  "c \<in> set cs \<Longrightarrow> replicate n c \<in> star (lang (Class cs))"
proof (induction n)
  case 0
  then show ?case by (simp add: star_nil)
next
  case (Suc n)
  then have "[c] @ replicate n c \<in> star (lang (Class cs))"
    by (intro star_app) auto
  then show ?case by simp
qed

lemma replicate_in_Many1:
  "c \<in> set cs \<Longrightarrow> replicate (Suc n) c \<in> lang (Many1 (Class cs))"
  using replicate_in_star [of c cs n] by (simp add: Many1_def conc_Class_Cons)

lemma URLTemplate_long:
  "MatchString URLTemplate (''a.b'' @ replicate (Suc n) (CHR ''c''))"
proof -
  have 1: "[] \<in> lang (Opt (Cat (Lit ''http'') (Cat (Opt (Lit ''s'')) (Lit ''://''))))"
    by (simp add: Opt_def)
  have 2: "''a'' \<in> lang (Many1 (Class host_chars))"
    using replicate_in_Many1 [of "CHR ''a''" host_chars 0] by (simp add: host_chars_def word_chars_def)
  have b: "''b'' \<in> lang (Many1 (Class host_chars))"
    using replicate_in_Many1 [of "CHR ''b''" host_chars 0] by (simp add: host_chars_def word_chars_def)
  have "''.'' \<in> lang (Lit ''.'')"
    by (simp add: conc_def)
  from this b have "''.'' @ ''b'' \<in> lang (Cat (Lit ''.'') (Many1 (Class host_chars)))"
    unfolding lang.simps(5) by (rule concI)
  from this star_nil
  have "(''.'' @ ''b'') @ [] \<in> lang (Many1 (Cat (Lit ''.'') (Many1 (Class host_chars))))"
    unfolding Many1_def [of "Cat (Lit ''.'') (Many1 (Class host_chars))"] lang.simps(5,6)
    by (rule concI)
  then have 3: "''.b'' \<in> lang (Many1 (Cat (Lit ''.'') (Many1 (Class host_chars))))"
    by simp
  have 4: "replicate (Suc n) (CHR ''c'') \<in> lang (Many1 (Class tail_chars))"
    by (rule replicate_in_Many1) (simp add: tail_chars_def word_chars_def)
  have "[] @ ''a'' @ ''.b'' @ replicate (Suc n) (CHR ''c'') \<in> lang URLTemplate"
    unfolding URLTemplate_def lang.simps(5)
    by (intro concI 1 2 3 4)
  then show ?thesis by (simp add: MatchString_iff)
qed

section \<open>Properties of the table\<close>

lemma insert_row_done:
  "insert_row l u t = (None, t') \<Longrightarrow>
     length l \<le> 10 \<and> length u \<le> 2048 \<and>
     t' = t @ [(l @ replicate (10 - length l) (CHR '' ''), u)] \<and>
     l @ replicate (10 - length l) (CHR '' '') \<notin> set (map fst t) \<and> u \<notin> set (map snd t)"
  by (auto simp: insert_row_def Let_def split: if_splits)

lemma insert_row_grows: "set t \<subseteq> set (snd (insert_row l u t))"
  by (auto simp: insert_row_def Let_def)

lemma insert_row_bijective:
  "bijective_table t \<Longrightarrow> bijective_table (snd (insert_row l u t))"
  by (auto simp: insert_row_def Let_def bijective_table_def)

lemma insert_row_codes_valid:
  "MatchString linkTemplate l \<Longrightarrow> codes_valid t \<Longrightarrow> codes_valid (snd (insert_row l u t))"
  by (auto simp: insert_row_def Let_def codes_valid_def MatchString_linkTemplate)

lemma insert_row_urls_fit:
  "urls_fit t \<Longrightarrow> urls_fit (snd (insert_row l u t))"
  by (auto simp: insert_row_def Let_def urls_fit_def)

lemma insert_row_too_long:
  "2048 < length u \<Longrightarrow> length l = 10 \<Longrightarrow> insert_row l u t = (Some url_too_long, t)"
  by (simp add: insert_row_def)

lemma find_by_fst:
  "distinct (map fst t) \<Longrightarrow> (c, u) \<in> set t \<Longrightarrow> find (\<lambda>r. fst r = c) t = Some (c, u)"
  by (induction t) (auto simp: rev_image_eqI)

lemma find_by_snd:
  "distinct (map snd t) \<Longrightarrow> (c, u) \<in> set t \<Longrightarrow> find (\<lambda>r. snd r = u) t = Some (c, u)"
  by (induction t) (auto simp: rev_image_eqI)

lemma find_None_fst: "find (\<lambda>r. fst r = c) t = None \<longleftrightarrow> c \<notin> set (map fst t)"
  by (induction t) auto

lemma find_None_snd: "find (\<lambda>r. snd r = u) t = None \<longleftrightarrow> u \<notin> set (map snd t)"
  by (induction t) auto

lemma find_Some_mem: "find P t = Some r \<Longrightarrow> r \<in> set t \<and> P r"
  by (induction t) (auto split: if_splits)

text \<open>
  A property of tables that every insert of a well-formed code keeps is kept by
  everything the environment and the service do.
\<close>

lemma commit_rows_keeps:
  assumes "\<And>l u t. MatchString linkTemplate l \<Longrightarrow> P t \<Longrightarrow> P (snd (insert_row l u t))"
  shows "P t \<Longrightarrow> P (commit_rows rs t)"
  by (induction rs t rule: commit_rows.induct) (simp_all add: assms)

lemma commit_rows_grows: "set t \<subseteq> set (commit_rows rs t)"
proof (induction rs t rule: commit_rows.induct)
  case (1 t)
  then show ?case by simp
next
  case (2 l u rs t)
  then show ?case using insert_row_grows [of t l u] by (auto split: if_splits)
qed

lemma arrive_keeps:
  assumes "\<And>l u t. MatchString linkTemplate l \<Longrightarrow> P t \<Longrightarrow> P (snd (insert_row l u t))"
  shows "P (links w) \<Longrightarrow> P (links (snd (arrive w)))"
  using commit_rows_keeps [of P, OF assms]
  by (auto simp: arrive_def split: list.splits event.splits)

lemma arrive_grows: "set (links w) \<subseteq> set (links (snd (arrive w)))"
  using commit_rows_grows by (auto simp: arrive_def split: list.splits event.splits)

lemma arrive_rng: "rng (snd (arrive w)) = rng w"
  by (auto simp: arrive_def split: list.splits event.splits)

lemma arrive_no_fault: "no_fault w \<longleftrightarrow> fst (arrive w) = None"
  by (auto simp: arrive_def no_fault_def split: list.splits event.splits)

lemma exec_insert_keeps:
  assumes "\<And>l u t. MatchString linkTemplate l \<Longrightarrow> P t \<Longrightarrow> P (snd (insert_row l u t))"
    and "MatchString linkTemplate link" and "P (links w)"
  shows "P (links (snd (exec_insert link url w)))"
proof -
  have "P (links (snd (arrive w)))" using assms(1,3) by (rule arrive_keeps)
  then show ?thesis
    using assms(1) [OF assms(2), of "links (snd (arrive w))" url]
    by (auto simp: exec_insert_def split: prod.splits option.splits)
qed

lemma exec_insert_rng: "rng (snd (exec_insert link url w)) = rng w"
  using arrive_rng [of w] by (auto simp: exec_insert_def split: prod.splits option.splits)

lemma exec_insert_done:
  "exec_insert link url w = (None, w2) \<Longrightarrow> length link = 10 \<Longrightarrow> (link, url) \<in> set (links w2)"
  by (auto simp: exec_insert_def split: prod.splits option.splits dest!: insert_row_done)

section \<open>Properties of the service\<close>

lemma UCViolation_is_link_pk: "UCViolation = link_pk_violation"
  by (simp add: UCViolation_def link_pk_violation_def)

lemma other_texts_differ:
  "url_too_long \<noteq> UCViolation" "original_url_unique_violation \<noteq> UCViolation"
  "link_too_long \<noteq> UCViolation"
  by (simp_all add: UCViolation_def url_too_long_def original_url_unique_violation_def
      link_too_long_def)

subsection \<open>One turn of the loop\<close>

lemma Create_loop_retry:
  assumes "generateRandomCharacters lengthLink (rng w) = (link, g)"
    and "exec_insert link url (w\<lparr>rng := g\<rparr>) = (Some UCViolation, w2)"
  shows "Create_loop url w = Create_loop url w2"
  using assms by (subst Create_loop.simps) simp

lemma Create_loop_abort:
  assumes "generateRandomCharacters lengthLink (rng w) = (link, g)"
    and "exec_insert link url (w\<lparr>rng := g\<rparr>) = (Some e, w2)" and "e \<noteq> UCViolation"
  shows "Create_loop url w = Some ((None, Some ErrReqProc), w2)"
  using assms by (subst Create_loop.simps) simp

lemma Create_loop_done:
  assumes "generateRandomCharacters lengthLink (rng w) = (link, g)"
    and "exec_insert link url (w\<lparr>rng := g\<rparr>) = (None, w2)"
  shows "Create_loop url w = Some ((Some link, None), w2)"
  using assms by (subst Create_loop.simps) simp

text \<open>
  The rule of the loop: an invariant \<open>I\<close> of the worlds at the head of the loop, and a
  property \<open>Q\<close> of what the loop returns when it returns.
\<close>

lemma Create_loop_rule:
  assumes ret: "Create_loop url w = Some y"
    and init: "I w"
    and retry: "\<And>w link g w2. I w \<Longrightarrow> generateRandomCharacters lengthLink (rng w) = (link, g) \<Longrightarrow>
        exec_insert link url (w\<lparr>rng := g\<rparr>) = (Some UCViolation, w2) \<Longrightarrow> I w2"
    and abort: "\<And>w link g e w2. I w \<Longrightarrow> generateRandomCharacters lengthLink (rng w) = (link, g) \<Longrightarrow>
        exec_insert link url (w\<lparr>rng := g\<rparr>) = (Some e, w2) \<Longrightarrow> e \<noteq> UCViolation \<Longrightarrow>
        Q ((None, Some ErrReqProc), w2)"
    and stored: "\<And>w link g w2. I w \<Longrightarrow> generateRandomCharacters lengthLink (rng w) = (link, g) \<Longrightarrow>
        exec_insert link url (w\<lparr>rng := g\<rparr>) = (None, w2) \<Longrightarrow> Q ((Some link, None), w2)"
  shows "Q y"
proof -
  have "a = url \<longrightarrow> I b \<longrightarrow> Q c" if "Create_loop a b = Some c" for a b c
    using that
  proof (induction a b c rule: Create_loop.raw_induct [rotated 1, consumes 1])
    case (1 loop u v r)
    show ?case
    proof (intro impI)
      assume u: "u = url" and Iv: "I v"
      obtain link g where gen: "generateRandomCharacters lengthLink (rng v) = (link, g)"
        by (cases "generateRandomCharacters lengthLink (rng v)")
      obtain e w2 where ins: "exec_insert link url (v\<lparr>rng := g\<rparr>) = (e, w2)"
        by (cases "exec_insert link url (v\<lparr>rng := g\<rparr>)")
      show "Q r"
      proof (cases e)
        case None
        with 1(2) gen ins u have "r = ((Some link, None), w2)" by simp
        with stored [OF Iv gen] ins None show ?thesis by simp
      next
        case (Some m)
        show ?thesis
        proof (cases "m = UCViolation")
          case True
          with 1(2) gen ins u Some have "loop url w2 = Some r" by simp
          moreover have "I w2" using retry [OF Iv gen] ins Some True by simp
          ultimately show ?thesis using 1(1) by blast
        next
          case False
          with 1(2) gen ins u Some have "r = ((None, Some ErrReqProc), w2)" by simp
          with abort [OF Iv gen _ False] ins Some show ?thesis by simp
        qed
      qed
    qed
  qed
  with ret init show ?thesis by blast
qed

subsection \<open>The paths through \<^verbatim>\<open>Create\<close> and \<^verbatim>\<open>Get\<close>\<close>

lemma select_link_eq:
  "select_link u w =
     (case fst (arrive w) of
        Some m \<Rightarrow> Inl (DriverError m)
      | None \<Rightarrow> (case find (\<lambda>r. snd r = u) (seen w) of
                   None \<Rightarrow> Inl ErrNoRows | Some r \<Rightarrow> Inr (fst r)),
      snd (arrive w))"
  by (auto simp: select_link_def seen_def split: prod.splits option.splits)

lemma select_original_url_eq:
  "select_original_url l w =
     (case fst (arrive w) of
        Some m \<Rightarrow> Inl (DriverError m)
      | None \<Rightarrow> (case find (\<lambda>r. fst r = l) (seen w) of
                   None \<Rightarrow> Inl ErrNoRows | Some r \<Rightarrow> Inr (snd r)),
      snd (arrive w))"
  by (auto simp: select_original_url_def seen_def split: prod.splits option.splits)

lemma Create_invalid:
  "\<not> MatchString URLTemplate url \<Longrightarrow> Create url w = Some ((None, Some ErrInvalidURL), w)"
  by (simp add: Create_def)

lemma Create_fault:
  "MatchString URLTemplate url \<Longrightarrow> fst (arrive w) = Some m \<Longrightarrow>
     Create url w = Some ((None, Some ErrReqProc), snd (arrive w))"
  by (simp add: Create_def select_link_eq)

lemma Create_found:
  "MatchString URLTemplate url \<Longrightarrow> fst (arrive w) = None \<Longrightarrow>
     find (\<lambda>r. snd r = url) (seen w) = Some r \<Longrightarrow>
     Create url w = Some ((Some (fst r), None), snd (arrive w))"
  by (simp add: Create_def select_link_eq)

lemma Create_absent:
  "MatchString URLTemplate url \<Longrightarrow> fst (arrive w) = None \<Longrightarrow>
     find (\<lambda>r. snd r = url) (seen w) = None \<Longrightarrow>
     Create url w = Create_loop url (snd (arrive w))"
  by (simp add: Create_def select_link_eq)

lemma Create_paths [consumes 1, case_names invalid fault found allocated]:
  assumes "Create url w = Some (r, w')"
    and "\<not> MatchString URLTemplate url \<Longrightarrow> r = (None, Some ErrInvalidURL) \<Longrightarrow> w' = w \<Longrightarrow> R"
    and "\<And>m. MatchString URLTemplate url \<Longrightarrow> fst (arrive w) = Some m \<Longrightarrow>
           r = (None, Some ErrReqProc) \<Longrightarrow> w' = snd (arrive w) \<Longrightarrow> R"
    and "\<And>x. MatchString URLTemplate url \<Longrightarrow> fst (arrive w) = None \<Longrightarrow>
           find (\<lambda>r. snd r = url) (seen w) = Some x \<Longrightarrow>
           r = (Some (fst x), None) \<Longrightarrow> w' = snd (arrive w) \<Longrightarrow> R"
    and "MatchString URLTemplate url \<Longrightarrow> fst (arrive w) = None \<Longrightarrow>
           find (\<lambda>r. snd r = url) (seen w) = None \<Longrightarrow>
           Create_loop url (snd (arrive w)) = Some (r, w') \<Longrightarrow> R"
  shows R
proof (cases "MatchString URLTemplate url")
  case False
  with assms(1,2) show ?thesis by (simp add: Create_invalid)
next
  case True
  show ?thesis
  proof (cases "fst (arrive w)")
    case (Some m)
    with True assms(1) assms(3) [of m] show ?thesis by (simp add: Create_fault)
  next
    case None
    show ?thesis
    proof (cases "find (\<lambda>r. snd r = url) (seen w)")
      case (Some x)
      with True None assms(1) assms(4) [of x] show ?thesis by (simp add: Create_found)
    next
      case nf: None
      with True None assms(1) assms(5) show ?thesis by (simp add: Create_absent)
    qed
  qed
qed

lemma Get_invalid:
  "\<not> MatchString linkTemplate l \<Longrightarrow> Get l w = ((None, Some ErrInvalidLink), w)"
  by (simp add: Get_def)

lemma Get_fault:
  "MatchString linkTemplate l \<Longrightarrow> fst (arrive w) = Some m \<Longrightarrow>
     Get l w = ((None, Some ErrReqProc), snd (arrive w))"
  by (simp add: Get_def select_original_url_eq)

lemma Get_found:
  "MatchString linkTemplate l \<Longrightarrow> fst (arrive w) = None \<Longrightarrow>
     find (\<lambda>r. fst r = l) (seen w) = Some r \<Longrightarrow>
     Get l w = ((Some (snd r), None), snd (arrive w))"
  by (simp add: Get_def select_original_url_eq)

lemma Get_absent:
  "MatchString linkTemplate l \<Longrightarrow> fst (arrive w) = None \<Longrightarrow>
     find (\<lambda>r. fst r = l) (seen w) = None \<Longrightarrow>
     Get l w = ((None, Some ErrURLNotFound), snd (arrive w))"
  by (simp add: Get_def select_original_url_eq)

lemma Get_world: "snd (Get l w) = w \<or> snd (Get l w) = snd (arrive w)"
  by (auto simp: Get_def select_original_url_eq split: option.splits)

subsection \<open>What the service keeps\<close>

lemma Create_loop_keeps:
  assumes closed: "\<And>l u t. MatchString linkTemplate l \<Longrightarrow> P t \<Longrightarrow> P (snd (insert_row l u t))"
    and "Create_loop url w = Some (r, w')" and "P (links w)"
  shows "P (links w')"
proof -
  have step: "P (links w2)"
    if "P (links v)" "generateRandomCharacters lengthLink (rng v) = (link, g)"
      "exec_insert link url (v\<lparr>rng := g\<rparr>) = (e, w2)" for v link g e w2
    using exec_insert_keeps [of P link "v\<lparr>rng := g\<rparr>" url, OF closed generated_link_ok [OF that(2)]] that
    by simp
  have "P (links (snd (r, w')))"
    using assms(2)
    by (rule Create_loop_rule [where I = "\<lambda>w. P (links w)"]) (use assms(3) step in auto)
  then show ?thesis by simp
qed

lemma Create_keeps:
  assumes closed: "\<And>l u t. MatchString linkTemplate l \<Longrightarrow> P t \<Longrightarrow> P (snd (insert_row l u t))"
    and "Create url w = Some (r, w')" and "P (links w)"
  shows "P (links w')"
  using assms(2)
proof (cases rule: Create_paths)
  case invalid
  with assms(3) show ?thesis by simp
next
  case (fault m)
  with arrive_keeps [of P w, OF closed assms(3)] show ?thesis by simp
next
  case (found x)
  with arrive_keeps [of P w, OF closed assms(3)] show ?thesis by simp
next
  case allocated
  from closed allocated(4) arrive_keeps [of P w, OF closed assms(3)]
  show ?thesis by (rule Create_loop_keeps)
qed

lemma Get_keeps:
  assumes closed: "\<And>l u t. MatchString linkTemplate l \<Longrightarrow> P t \<Longrightarrow> P (snd (insert_row l u t))"
    and "P (links w)"
  shows "P (links (snd (Get l w)))"
  using Get_world [of l w] arrive_keeps [of P w, OF closed assms(2)] assms(2) by auto

lemma Create_loop_row:
  assumes "Create_loop url w = Some ((Some c, None), w')"
  shows "(c, url) \<in> set (links w') \<and> MatchString linkTemplate c"
proof -
  let ?Q = "\<lambda>y :: reply \<times> world. \<forall>c w'. y = ((Some c, None), w') \<longrightarrow>
              (c, url) \<in> set (links w') \<and> MatchString linkTemplate c"
  have "?Q ((Some c, None), w')"
    using assms
  proof (rule Create_loop_rule [where I = "\<lambda>w. True" and Q = ?Q])
    fix v link g w2
    assume gen: "generateRandomCharacters lengthLink (rng v) = (link, g)"
      and ins: "exec_insert link url (v\<lparr>rng := g\<rparr>) = (None, w2)"
    have "length link = 10"
      using generateRandomCharacters_length [of lengthLink "rng v"] gen
      by (simp add: lengthLink_def)
    with ins have "(link, url) \<in> set (links w2)" by (rule exec_insert_done)
    with generated_link_ok [OF gen] show "?Q ((Some link, None), w2)" by simp
  qed simp_all
  then show ?thesis by simp
qed

lemma Create_row:
  assumes "Create url w = Some ((Some c, None), w')"
  shows "(c, url) \<in> set (links w')"
  using assms
proof (cases rule: Create_paths)
  case (found x)
  from found(3) have "x \<in> set (seen w)" "snd x = url"
    by (auto dest: find_Some_mem)
  with found(4,5) show ?thesis
    by (cases x) (simp add: seen_def)
next
  case allocated
  then show ?thesis by (simp add: Create_loop_row)
qed simp_all

lemma Create_code_valid:
  assumes "Create url w = Some ((Some c, None), w')" and "codes_valid (links w)"
  shows "MatchString linkTemplate c"
proof -
  have "codes_valid (links w')"
    using insert_row_codes_valid assms by (rule Create_keeps)
  with Create_row [OF assms(1)] show ?thesis
    by (auto simp: codes_valid_def list_all_iff)
qed

section \<open>Worked examples\<close>

lemma world_of_sel [simp]:
  "links (world_of t es n) = t" "sched (world_of t es n) = es" "rng (world_of t es n) = siterate Suc n"
  "world_of t es n\<lparr>rng := siterate Suc m\<rparr> = world_of t es m"
  "world_of t es n\<lparr>links := t'\<rparr> = world_of t' es n"
  "world_of t es n\<lparr>sched := es'\<rparr> = world_of t es' n"
  "world_of t es n\<lparr>links := t', sched := es'\<rparr> = world_of t' es' n"
  by (simp_all add: world_of_def)

lemma arrive_world_of:
  "arrive (world_of t [] n) = (None, world_of t [] n)"
  "arrive (world_of t (Fault m # es) n) = (Some m, world_of t es n)"
  "arrive (world_of t (Commit rs # es) n) = (None, world_of (commit_rows rs t) es n)"
  by (simp_all add: arrive_def)

lemma seen_world_of:
  "seen (world_of t [] n) = t"
  "seen (world_of t (Fault m # es) n) = t"
  "seen (world_of t (Commit rs # es) n) = commit_rows rs t"
  by (simp_all add: seen_def arrive_world_of)

lemma upt_10: "[0..<10] = [0, 1, 2, 3, 4, 5, 6, 7, 8, 9]"
  by code_simp

lemma draw_10:
  "generateRandomCharacters lengthLink (siterate Suc 0) = (''0123456789'', siterate Suc 10)"
  "generateRandomCharacters lengthLink (siterate Suc 10) = (''ABCDEFGHIJ'', siterate Suc 20)"
  by (simp_all add: generateRandomCharacters_eq lengthLink_def upt_10 alphabet_def)

lemma url_examples:
  "MatchString URLTemplate ''a.bc''"
  "MatchString URLTemplate ''https://golang.org/''"
  "MatchString URLTemplate ''http://abc.abc/''"
  "\<not> MatchString URLTemplate ''this is not a URL''"
  "\<not> MatchString URLTemplate []"
  by code_simp+

lemma link_examples:
  "MatchString linkTemplate ''0123456789''"
  "MatchString linkTemplate ''ABCDEFGHIJ''"
  "MatchString linkTemplate ''123_abcABC''"
  "\<not> MatchString linkTemplate ''@5gfh35^Gdfh&EWR''"
  "\<not> MatchString linkTemplate []"
  by code_simp+

lemma insert_row_examples:
  "insert_row ''0123456789'' ''a.bc'' [] = (None, [(''0123456789'', ''a.bc'')])"
  "insert_row ''ABCDEFGHIJ'' ''a.bc'' [] = (None, [(''ABCDEFGHIJ'', ''a.bc'')])"
  "insert_row ''0123456789'' ''a.bc'' [(''ABCDEFGHIJ'', ''a.bc'')] =
     (Some original_url_unique_violation, [(''ABCDEFGHIJ'', ''a.bc'')])"
  "insert_row ''0123456789'' ''a.bc'' [(''0123456789'', ''x.yz'')] =
     (Some link_pk_violation, [(''0123456789'', ''x.yz'')])"
  "insert_row ''ABCDEFGHIJ'' ''a.bc'' [(''0123456789'', ''x.yz'')] =
     (None, [(''0123456789'', ''x.yz''), (''ABCDEFGHIJ'', ''a.bc'')])"
  by (simp_all add: insert_row_def)

text \<open>A first \<^verbatim>\<open>Create\<close> on the empty table allocates the first code drawn.\<close>

lemma Create_example:
  "Create ''a.bc'' (world_of [] [] 0) =
     Some ((Some ''0123456789'', None), world_of [(''0123456789'', ''a.bc'')] [] 10)"
proof -
  have "exec_insert ''0123456789'' ''a.bc'' (world_of [] [] 10) =
          (None, world_of [(''0123456789'', ''a.bc'')] [] 10)"
    by (simp add: exec_insert_def arrive_world_of insert_row_examples)
  then have "Create_loop ''a.bc'' (world_of [] [] 0) =
          Some ((Some ''0123456789'', None), world_of [(''0123456789'', ''a.bc'')] [] 10)"
    by (intro Create_loop_done [where g = "siterate Suc 10"]) (simp_all add: draw_10)
  then show ?thesis
    by (simp add: Create_absent url_examples arrive_world_of seen_world_of)
qed

lemma Create_again_example:
  "Create ''a.bc'' (world_of [(''0123456789'', ''a.bc'')] [] 10) =
     Some ((Some ''0123456789'', None), world_of [(''0123456789'', ''a.bc'')] [] 10)"
  using Create_found [of "''a.bc''" "world_of [(''0123456789'', ''a.bc'')] [] 10" "(''0123456789'', ''a.bc'')"]
  by (simp add: url_examples arrive_world_of seen_world_of)

lemma Get_example:
  "Get ''0123456789'' (world_of [(''0123456789'', ''a.bc'')] [] 10) =
     ((Some ''a.bc'', None), world_of [(''0123456789'', ''a.bc'')] [] 10)"
  using Get_found [of "''0123456789''" "world_of [(''0123456789'', ''a.bc'')] [] 10" "(''0123456789'', ''a.bc'')"]
  by (simp add: link_examples arrive_world_of seen_world_of)

text \<open>
  The race on one URL: the lookup sees no row, another request commits a row for the
  URL, and the insert of this request is refused by \<^verbatim>\<open>original_url_unique\<close>.
\<close>

lemma race_commit:
  "commit_rows [(''ABCDEFGHIJ'', ''a.bc'')] [] = [(''ABCDEFGHIJ'', ''a.bc'')]"
  by (simp add: link_examples url_examples insert_row_examples)

lemma race_select:
  "select_link ''a.bc'' (world_of [] [Commit [], Commit [(''ABCDEFGHIJ'', ''a.bc'')]] 0) =
     (Inl ErrNoRows, world_of [] [Commit [(''ABCDEFGHIJ'', ''a.bc'')]] 0)"
  by (simp add: select_link_eq arrive_world_of seen_world_of)

lemma race_insert:
  "exec_insert ''0123456789'' ''a.bc'' (world_of [] [Commit [(''ABCDEFGHIJ'', ''a.bc'')]] 10) =
     (Some original_url_unique_violation, world_of [(''ABCDEFGHIJ'', ''a.bc'')] [] 10)"
  by (simp add: exec_insert_def arrive_world_of race_commit insert_row_examples
      del: commit_rows.simps)

lemma race_Create:
  "Create ''a.bc'' (world_of [] [Commit [], Commit [(''ABCDEFGHIJ'', ''a.bc'')]] 0) =
     Some ((None, Some ErrReqProc), world_of [(''ABCDEFGHIJ'', ''a.bc'')] [] 10)"
proof -
  have "Create_loop ''a.bc'' (world_of [] [Commit [(''ABCDEFGHIJ'', ''a.bc'')]] 0) =
      Some ((None, Some ErrReqProc), world_of [(''ABCDEFGHIJ'', ''a.bc'')] [] 10)"
    by (rule Create_loop_abort [where g = "siterate Suc 10" and link = "''0123456789''"
          and e = original_url_unique_violation])
      (simp_all add: draw_10 race_insert other_texts_differ)
  then show ?thesis
    by (simp add: Create_absent url_examples arrive_world_of seen_world_of)
qed

text \<open>A collision on the code: the first code drawn is taken, the second is stored.\<close>

lemma collision_insert:
  "exec_insert ''0123456789'' ''a.bc'' (world_of [(''0123456789'', ''x.yz'')] [] 10) =
     (Some link_pk_violation, world_of [(''0123456789'', ''x.yz'')] [] 10)"
  by (simp add: exec_insert_def arrive_world_of insert_row_examples)

lemma collision_second:
  "Create_loop ''a.bc'' (world_of [(''0123456789'', ''x.yz'')] [] 10) =
     Some ((Some ''ABCDEFGHIJ'', None),
           world_of [(''0123456789'', ''x.yz''), (''ABCDEFGHIJ'', ''a.bc'')] [] 20)"
  by (rule Create_loop_done [where g = "siterate Suc 20"])
    (simp_all add: draw_10 exec_insert_def arrive_world_of insert_row_examples)

section \<open>Further facts used by the claims\<close>

lemma Create_success_valid:
  "Create u w = Some ((Some c, None), w') \<Longrightarrow> MatchString URLTemplate u"
  by (rule ccontr) (simp add: Create_invalid)

lemma arrive_rng_update:
  "arrive (w\<lparr>rng := g\<rparr>) = (fst (arrive w), (snd (arrive w))\<lparr>rng := g\<rparr>)"
  by (auto simp: arrive_def split: list.splits event.splits)

lemma seen_rng_update: "seen (w\<lparr>rng := g\<rparr>) = seen w"
  by (simp add: seen_def arrive_rng_update)

lemma exec_insert_eq:
  "exec_insert link url w =
     (case fst (arrive w) of
        Some m \<Rightarrow> (Some m, snd (arrive w))
      | None \<Rightarrow> (fst (insert_row link url (seen w)),
                 (snd (arrive w))\<lparr>links := snd (insert_row link url (seen w))\<rparr>))"
  by (auto simp: exec_insert_def seen_def split: prod.splits option.splits)

lemma generated_length:
  "generateRandomCharacters lengthLink g = (link, g') \<Longrightarrow> length link = 10"
  using generateRandomCharacters_length [of lengthLink g] by (simp add: lengthLink_def)

lemma Create_loop_reply:
  assumes "Create_loop url w = Some (r, w')"
  shows "r = (None, Some ErrReqProc) \<or> (\<exists>c. r = (Some c, None))"
proof -
  let ?Q = "\<lambda>y :: reply \<times> world. fst y = (None, Some ErrReqProc) \<or> (\<exists>c. fst y = (Some c, None))"
  have "?Q (r, w')"
    using assms by (rule Create_loop_rule [where I = "\<lambda>w. True" and Q = ?Q]) simp_all
  then show ?thesis by simp
qed

text \<open>
  A URL too long for its column: every turn of the loop either meets a driver
  fault or has its insert refused for the length, so the loop ends, at the latest
  when the schedule is used up, and it ends in \<^verbatim>\<open>ErrReqProc\<close>.
\<close>

lemma Create_loop_long:
  assumes "2048 < length u"
  shows "\<exists>w'. Create_loop u w = Some ((None, Some ErrReqProc), w')"
proof (induction "sched w" arbitrary: w)
  case Nil
  obtain link g where gen: "generateRandomCharacters lengthLink (rng w) = (link, g)"
    by (cases "generateRandomCharacters lengthLink (rng w)")
  have "exec_insert link u (w\<lparr>rng := g\<rparr>) = (Some url_too_long, w\<lparr>rng := g\<rparr>)"
    using Nil [symmetric] assms generated_length [OF gen]
    by (simp add: exec_insert_def arrive_def insert_row_too_long)
  with gen show ?case
    by (auto simp: other_texts_differ dest: Create_loop_abort)
next
  case (Cons ev es)
  obtain link g where gen: "generateRandomCharacters lengthLink (rng w) = (link, g)"
    by (cases "generateRandomCharacters lengthLink (rng w)")
  show ?case
  proof (cases ev)
    case (Commit rs)
    have "exec_insert link u (w\<lparr>rng := g\<rparr>) =
        (Some url_too_long, w\<lparr>rng := g, links := commit_rows rs (links w), sched := es\<rparr>)"
      using Cons(2) [symmetric] Commit assms generated_length [OF gen]
      by (simp add: exec_insert_def arrive_def insert_row_too_long)
    with gen show ?thesis
      by (auto simp: other_texts_differ dest: Create_loop_abort)
  next
    case (Fault m)
    have ins: "exec_insert link u (w\<lparr>rng := g\<rparr>) = (Some m, w\<lparr>rng := g, sched := es\<rparr>)"
      using Cons(2) [symmetric] Fault by (simp add: exec_insert_def arrive_def)
    show ?thesis
    proof (cases "m = UCViolation")
      case True
      with gen ins have "Create_loop u w = Create_loop u (w\<lparr>rng := g, sched := es\<rparr>)"
        by (auto dest: Create_loop_retry)
      moreover have "\<exists>w'. Create_loop u (w\<lparr>rng := g, sched := es\<rparr>) = Some ((None, Some ErrReqProc), w')"
        by (rule Cons(1)) simp
      ultimately show ?thesis by simp
    next
      case False
      with gen ins show ?thesis by (auto dest: Create_loop_abort)
    qed
  qed
qed

lemma run_example:
  "run [CallCreate ''a.bc'', CallGet ''0123456789'', CallCreate ''a.bc''] (world_of [] [] 0) =
     Some ([(Some ''0123456789'', None), (Some ''a.bc'', None), (Some ''0123456789'', None)],
           world_of [(''0123456789'', ''a.bc'')] [] 10)"
  by (simp add: Create_example Get_example Create_again_example)

section \<open>The claims\<close>

text \<open>
  C1. For every URL \<open>u\<close> the validator accepts: if \<^verbatim>\<open>Create\<close> of \<open>u\<close> succeeds with
  the code \<open>c\<close>, then \<^verbatim>\<open>Get\<close> of \<open>c\<close>, run on the world \<^verbatim>\<open>Create\<close> left, succeeds
  and returns exactly \<open>u\<close>. The table \<^verbatim>\<open>Create\<close> started from satisfies what the schema
  and the service maintain (codes and URLs unique, codes well formed), and the
  driver does not fail the query of \<^verbatim>\<open>Get\<close>.
\<close>

theorem C1_create_then_get_returns_url:
  assumes "MatchString URLTemplate u"
    and "Create u w = Some ((Some c, None), w')"
    and "bijective_table (links w)" and "codes_valid (links w)"
    and "no_fault w'"
  shows "fst (Get c w') = (Some u, None)"
proof -
  have "bijective_table (links w')"
    using insert_row_bijective assms(2,3) by (rule Create_keeps)
  with insert_row_bijective have "bijective_table (seen w')"
    unfolding seen_def by (rule arrive_keeps)
  moreover have "(c, u) \<in> set (seen w')"
    using Create_row [OF assms(2)] arrive_grows [of w'] by (auto simp: seen_def)
  ultimately have found: "find (\<lambda>r. fst r = c) (seen w') = Some (c, u)"
    by (simp add: bijective_table_def find_by_fst)
  have valid: "MatchString linkTemplate c"
    using assms(2,4) by (rule Create_code_valid)
  have "fst (arrive w') = None"
    using assms(5) by (simp add: arrive_no_fault)
  with valid have "Get c w' = ((Some (snd (c, u)), None), snd (arrive w'))"
    using found by (rule Get_found)
  then show ?thesis by simp
qed

theorem C1_witness:
  "MatchString URLTemplate ''a.bc'' \<and>
   Create ''a.bc'' (world_of [] [] 0) =
     Some ((Some ''0123456789'', None), world_of [(''0123456789'', ''a.bc'')] [] 10) \<and>
   bijective_table (links (world_of [] [] 0)) \<and> codes_valid (links (world_of [] [] 0)) \<and>
   no_fault (world_of [(''0123456789'', ''a.bc'')] [] 10) \<and>
   fst (Get ''0123456789'' (world_of [(''0123456789'', ''a.bc'')] [] 10)) = (Some ''a.bc'', None)"
  using C1_create_then_get_returns_url [of "''a.bc''" "world_of [] [] 0" "''0123456789''"
      "world_of [(''0123456789'', ''a.bc'')] [] 10"]
  by (simp add: url_examples Create_example bijective_table_def codes_valid_def no_fault_def)

text \<open>
  C2. Calling \<^verbatim>\<open>Create\<close> of \<open>u\<close> twice in sequence returns the same code both times:
  the second call, run on the world the first one left, finds the mapping of \<open>u\<close>
  and returns its code. It allocates nothing: it draws no random value, and the world
  it leaves is the one its single query worked on.
\<close>

theorem C2_second_create_returns_same_code:
  assumes "Create u w = Some ((Some c, None), w1)"
    and "bijective_table (links w)"
    and "no_fault w1"
  shows "Create u w1 = Some ((Some c, None), snd (arrive w1)) \<and> rng (snd (arrive w1)) = rng w1"
proof -
  have "bijective_table (links w1)"
    using insert_row_bijective assms(1,2) by (rule Create_keeps)
  with insert_row_bijective have "bijective_table (seen w1)"
    unfolding seen_def by (rule arrive_keeps)
  moreover have "(c, u) \<in> set (seen w1)"
    using Create_row [OF assms(1)] arrive_grows [of w1] by (auto simp: seen_def)
  ultimately have found: "find (\<lambda>r. snd r = u) (seen w1) = Some (c, u)"
    by (simp add: bijective_table_def find_by_snd)
  have "fst (arrive w1) = None"
    using assms(3) by (simp add: arrive_no_fault)
  with Create_success_valid [OF assms(1)]
  have "Create u w1 = Some ((Some (fst (c, u)), None), snd (arrive w1))"
    using found by (rule Create_found)
  then show ?thesis by (simp add: arrive_rng)
qed

theorem C2_witness:
  "Create ''a.bc'' (world_of [] [] 0) =
     Some ((Some ''0123456789'', None), world_of [(''0123456789'', ''a.bc'')] [] 10) \<and>
   bijective_table (links (world_of [] [] 0)) \<and>
   no_fault (world_of [(''0123456789'', ''a.bc'')] [] 10) \<and>
   Create ''a.bc'' (world_of [(''0123456789'', ''a.bc'')] [] 10) =
     Some ((Some ''0123456789'', None), world_of [(''0123456789'', ''a.bc'')] [] 10)"
  using C2_second_create_returns_same_code [of "''a.bc''" "world_of [] [] 0" "''0123456789''"
      "world_of [(''0123456789'', ''a.bc'')] [] 10"]
  by (simp add: Create_example bijective_table_def no_fault_def arrive_world_of)

text \<open>
  C3, as stated: when the insert of \<^verbatim>\<open>Create\<close> is refused by the uniqueness of
  \<^verbatim>\<open>original_url\<close>, because another request committed a row for \<open>u\<close> after the
  lookup, \<^verbatim>\<open>Create\<close> looks \<open>u\<close> up again and returns the stored code. The code
  does not: in the race below the lookup finds nothing, the other request commits
  \<^verbatim>\<open>ABCDEFGHIJ\<close> for \<^verbatim>\<open>a.bc\<close>, the insert is refused by \<^verbatim>\<open>original_url_unique\<close>,
  and \<^verbatim>\<open>Create\<close> returns \<^verbatim>\<open>ErrReqProc\<close>, not \<^verbatim>\<open>ABCDEFGHIJ\<close>.
\<close>

theorem C3_counterexample:
  "select_link ''a.bc'' (world_of [] [Commit [], Commit [(''ABCDEFGHIJ'', ''a.bc'')]] 0) =
     (Inl ErrNoRows, world_of [] [Commit [(''ABCDEFGHIJ'', ''a.bc'')]] 0) \<and>
   exec_insert ''0123456789'' ''a.bc'' (world_of [] [Commit [(''ABCDEFGHIJ'', ''a.bc'')]] 10) =
     (Some original_url_unique_violation, world_of [(''ABCDEFGHIJ'', ''a.bc'')] [] 10) \<and>
   Create ''a.bc'' (world_of [] [Commit [], Commit [(''ABCDEFGHIJ'', ''a.bc'')]] 0) =
     Some ((None, Some ErrReqProc), world_of [(''ABCDEFGHIJ'', ''a.bc'')] [] 10) \<and>
   Create ''a.bc'' (world_of [] [Commit [], Commit [(''ABCDEFGHIJ'', ''a.bc'')]] 0) \<noteq>
     Some ((Some ''ABCDEFGHIJ'', None), world_of [(''ABCDEFGHIJ'', ''a.bc'')] [] 10)"
  by (simp add: race_select race_insert race_Create)

text \<open>
  C3, amended: when the insert of \<^verbatim>\<open>Create\<close> is refused by the uniqueness of
  \<^verbatim>\<open>original_url\<close>, \<^verbatim>\<open>Create\<close> stops at once with \<^verbatim>\<open>ErrReqProc\<close>, in the world
  the refused insert left: it neither looks \<open>u\<close> up again nor retries.
\<close>

theorem C3_url_conflict_is_reported:
  assumes "MatchString URLTemplate u"
    and "select_link u w = (Inl ErrNoRows, w1)"
    and "generateRandomCharacters lengthLink (rng w1) = (link, g)"
    and "exec_insert link u (w1\<lparr>rng := g\<rparr>) = (Some original_url_unique_violation, w2)"
  shows "Create u w = Some ((None, Some ErrReqProc), w2)"
proof -
  have "Create u w = Create_loop u w1"
    using assms(1,2) by (simp add: Create_def)
  also have "\<dots> = Some ((None, Some ErrReqProc), w2)"
    using assms(3,4) other_texts_differ(2) by (rule Create_loop_abort)
  finally show ?thesis .
qed

theorem C3_witness:
  "MatchString URLTemplate ''a.bc'' \<and>
   select_link ''a.bc'' (world_of [] [Commit [], Commit [(''ABCDEFGHIJ'', ''a.bc'')]] 0) =
     (Inl ErrNoRows, world_of [] [Commit [(''ABCDEFGHIJ'', ''a.bc'')]] 0) \<and>
   generateRandomCharacters lengthLink (rng (world_of [] [Commit [(''ABCDEFGHIJ'', ''a.bc'')]] 0)) =
     (''0123456789'', siterate Suc 10) \<and>
   exec_insert ''0123456789'' ''a.bc''
       (world_of [] [Commit [(''ABCDEFGHIJ'', ''a.bc'')]] 0\<lparr>rng := siterate Suc 10\<rparr>) =
     (Some original_url_unique_violation, world_of [(''ABCDEFGHIJ'', ''a.bc'')] [] 10) \<and>
   Create ''a.bc'' (world_of [] [Commit [], Commit [(''ABCDEFGHIJ'', ''a.bc'')]] 0) =
     Some ((None, Some ErrReqProc), world_of [(''ABCDEFGHIJ'', ''a.bc'')] [] 10)"
  using C3_url_conflict_is_reported [of "''a.bc''"
      "world_of [] [Commit [], Commit [(''ABCDEFGHIJ'', ''a.bc'')]] 0"
      "world_of [] [Commit [(''ABCDEFGHIJ'', ''a.bc'')]] 0"
      "''0123456789''" "siterate Suc 10" "world_of [(''ABCDEFGHIJ'', ''a.bc'')] [] 10"]
  by (simp add: url_examples race_select draw_10 race_insert)

text \<open>
  C4. In the loop of \<^verbatim>\<open>Create\<close>, an insert refused because the generated code is
  already a key of the table is not reported: the driver's text is then the one
  \<^verbatim>\<open>Create\<close> compares with, the candidate is dropped, and the loop runs again from
  the world the insert left, with the generator moved on. An insert that fails with
  any other text ends \<^verbatim>\<open>Create\<close> at once with \<^verbatim>\<open>ErrReqProc\<close>.
\<close>

theorem C4_collision_retried_other_failure_reported:
  assumes "generateRandomCharacters lengthLink (rng w) = (link, g)"
    and "exec_insert link url (w\<lparr>rng := g\<rparr>) = (Some e, w2)"
  shows "(no_fault w \<and> link \<in> set (map fst (seen w)) \<and> length url \<le> 2048 \<longrightarrow>
            e = link_pk_violation) \<and>
         (e = link_pk_violation \<longrightarrow> Create_loop url w = Create_loop url w2 \<and> rng w2 = g) \<and>
         (e \<noteq> link_pk_violation \<longrightarrow> Create_loop url w = Some ((None, Some ErrReqProc), w2))"
proof -
  have collision: "e = link_pk_violation"
    if h: "no_fault w \<and> link \<in> set (map fst (seen w)) \<and> length url \<le> 2048"
  proof -
    from h have "fst (arrive w) = None" by (simp add: arrive_no_fault)
    moreover have "insert_row link url (seen w) = (Some link_pk_violation, seen w)"
      using h generated_length [OF assms(1)] by (simp add: insert_row_def)
    ultimately show ?thesis
      using assms(2) by (simp add: exec_insert_eq arrive_rng_update seen_rng_update)
  qed
  have retried: "Create_loop url w = Create_loop url w2 \<and> rng w2 = g"
    if "e = link_pk_violation"
  proof -
    from that assms(2) have ins: "exec_insert link url (w\<lparr>rng := g\<rparr>) = (Some UCViolation, w2)"
      by (simp add: UCViolation_is_link_pk)
    have "rng w2 = g"
      using exec_insert_rng [of link url "w\<lparr>rng := g\<rparr>"] assms(2) by simp
    with Create_loop_retry [OF assms(1) ins] show ?thesis by simp
  qed
  have reported: "Create_loop url w = Some ((None, Some ErrReqProc), w2)"
    if "e \<noteq> link_pk_violation"
  proof -
    from that have "e \<noteq> UCViolation" by (simp add: UCViolation_is_link_pk)
    with assms show ?thesis by (rule Create_loop_abort)
  qed
  from collision retried reported show ?thesis by blast
qed

theorem C4_witness:
  "(generateRandomCharacters lengthLink (rng (world_of [(''0123456789'', ''x.yz'')] [] 0)) =
      (''0123456789'', siterate Suc 10) \<and>
    exec_insert ''0123456789'' ''a.bc''
        (world_of [(''0123456789'', ''x.yz'')] [] 0\<lparr>rng := siterate Suc 10\<rparr>) =
      (Some link_pk_violation, world_of [(''0123456789'', ''x.yz'')] [] 10) \<and>
    no_fault (world_of [(''0123456789'', ''x.yz'')] [] 0) \<and>
    ''0123456789'' \<in> set (map fst (seen (world_of [(''0123456789'', ''x.yz'')] [] 0))) \<and>
    length ''a.bc'' \<le> 2048 \<and>
    Create_loop ''a.bc'' (world_of [(''0123456789'', ''x.yz'')] [] 0) =
      Some ((Some ''ABCDEFGHIJ'', None),
            world_of [(''0123456789'', ''x.yz''), (''ABCDEFGHIJ'', ''a.bc'')] [] 20)) \<and>
   (generateRandomCharacters lengthLink (rng (world_of [] [Commit [(''ABCDEFGHIJ'', ''a.bc'')]] 0)) =
      (''0123456789'', siterate Suc 10) \<and>
    exec_insert ''0123456789'' ''a.bc''
        (world_of [] [Commit [(''ABCDEFGHIJ'', ''a.bc'')]] 0\<lparr>rng := siterate Suc 10\<rparr>) =
      (Some original_url_unique_violation, world_of [(''ABCDEFGHIJ'', ''a.bc'')] [] 10) \<and>
    original_url_unique_violation \<noteq> link_pk_violation \<and>
    Create_loop ''a.bc'' (world_of [] [Commit [(''ABCDEFGHIJ'', ''a.bc'')]] 0) =
      Some ((None, Some ErrReqProc), world_of [(''ABCDEFGHIJ'', ''a.bc'')] [] 10))"
  using C4_collision_retried_other_failure_reported [of "world_of [(''0123456789'', ''x.yz'')] [] 0"
      "''0123456789''" "siterate Suc 10" "''a.bc''" link_pk_violation
      "world_of [(''0123456789'', ''x.yz'')] [] 10"]
    C4_collision_retried_other_failure_reported [of "world_of [] [Commit [(''ABCDEFGHIJ'', ''a.bc'')]] 0"
      "''0123456789''" "siterate Suc 10" "''a.bc''" original_url_unique_violation
      "world_of [(''ABCDEFGHIJ'', ''a.bc'')] [] 10"]
  by (simp add: draw_10 collision_insert collision_second race_insert no_fault_def seen_world_of
      original_url_unique_violation_def link_pk_violation_def)

text \<open>
  C5. Every operation keeps the invariant of the table, that no two rows share a
  code and no two rows share a URL: from a world whose table satisfies it, any
  sequence of \<^verbatim>\<open>Create\<close> and \<^verbatim>\<open>Get\<close> calls that returns leaves a table that
  satisfies it, whatever the other requests commit meanwhile.
\<close>

theorem C5_calls_keep_table_bijective:
  assumes "bijective_table (links w)" and "run cs w = Some (rs, w')"
  shows "bijective_table (links w')"
  using assms
proof (induction cs arbitrary: w rs)
  case Nil
  then show ?case by simp
next
  case (Cons c cs)
  show ?case
  proof (cases c)
    case (CallCreate u)
    with Cons.prems(2) obtain r w1 rs1 where
      step: "Create u w = Some (r, w1)" and rest: "run cs w1 = Some (rs1, w')"
      by (auto split: option.splits)
    have "bijective_table (links w1)"
      using insert_row_bijective step Cons.prems(1) by (rule Create_keeps)
    then show ?thesis using rest by (rule Cons.IH)
  next
    case (CallGet l)
    with Cons.prems(2) obtain rs1 where rest: "run cs (snd (Get l w)) = Some (rs1, w')"
      by (auto split: prod.splits)
    have "bijective_table (links (snd (Get l w)))"
      using insert_row_bijective Cons.prems(1) by (rule Get_keeps)
    then show ?thesis using rest by (rule Cons.IH)
  qed
qed

theorem C5_witness:
  "bijective_table (links (world_of [] [] 0)) \<and>
   run [CallCreate ''a.bc'', CallGet ''0123456789'', CallCreate ''a.bc''] (world_of [] [] 0) =
     Some ([(Some ''0123456789'', None), (Some ''a.bc'', None), (Some ''0123456789'', None)],
           world_of [(''0123456789'', ''a.bc'')] [] 10) \<and>
   bijective_table (links (world_of [(''0123456789'', ''a.bc'')] [] 10))"
  using C5_calls_keep_table_bijective [of "world_of [] [] 0"
      "[CallCreate ''a.bc'', CallGet ''0123456789'', CallCreate ''a.bc'']"
      "[(Some ''0123456789'', None), (Some ''a.bc'', None), (Some ''0123456789'', None)]"
      "world_of [(''0123456789'', ''a.bc'')] [] 10"]
  by (simp add: run_example bijective_table_def del: run.simps)

text \<open>
  C6. \<^verbatim>\<open>Get\<close> of \<open>s\<close> fails with \<^verbatim>\<open>ErrInvalidLink\<close> exactly when \<open>s\<close> is not ten
  characters of \<^verbatim>\<open>[0-9A-Za-z_]\<close>. For a well-formed \<open>s\<close> whose query the database
  answers: if the table holds no row for \<open>s\<close>, \<^verbatim>\<open>Get\<close> fails with
  \<^verbatim>\<open>ErrURLNotFound\<close>; if it holds the row of \<open>s\<close> and \<open>u\<close>, \<^verbatim>\<open>Get\<close> returns \<open>u\<close>.
\<close>

theorem C6_get_outcomes:
  "(fst (Get s w) = (None, Some ErrInvalidLink) \<longleftrightarrow>
      \<not> (length s = 10 \<and> set s \<subseteq> set word_chars)) \<and>
   (length s = 10 \<and> set s \<subseteq> set word_chars \<and> no_fault w \<and> s \<notin> set (map fst (seen w)) \<longrightarrow>
      fst (Get s w) = (None, Some ErrURLNotFound)) \<and>
   (length s = 10 \<and> set s \<subseteq> set word_chars \<and> no_fault w \<and> bijective_table (links w) \<and>
      (s, u) \<in> set (seen w) \<longrightarrow>
      fst (Get s w) = (Some u, None))"
proof -
  have invalid: "fst (Get s w) = (None, Some ErrInvalidLink) \<longleftrightarrow>
      \<not> (length s = 10 \<and> set s \<subseteq> set word_chars)"
  proof (cases "MatchString linkTemplate s")
    case False
    then show ?thesis by (simp add: Get_invalid MatchString_linkTemplate)
  next
    case True
    then have "fst (Get s w) \<noteq> (None, Some ErrInvalidLink)"
      by (auto simp: Get_def select_original_url_eq split: option.splits)
    with True show ?thesis by (simp add: MatchString_linkTemplate)
  qed
  have absent: "fst (Get s w) = (None, Some ErrURLNotFound)"
    if "length s = 10 \<and> set s \<subseteq> set word_chars \<and> no_fault w \<and> s \<notin> set (map fst (seen w))"
  proof -
    from that have "MatchString linkTemplate s" "fst (arrive w) = None"
      "find (\<lambda>r. fst r = s) (seen w) = None"
      by (simp_all add: MatchString_linkTemplate arrive_no_fault find_None_fst)
    then show ?thesis by (simp add: Get_absent)
  qed
  have present: "fst (Get s w) = (Some u, None)"
    if h: "length s = 10 \<and> set s \<subseteq> set word_chars \<and> no_fault w \<and> bijective_table (links w) \<and>
      (s, u) \<in> set (seen w)"
  proof -
    from h have "bijective_table (links w)" by simp
    with insert_row_bijective have "bijective_table (seen w)"
      unfolding seen_def by (rule arrive_keeps)
    with h have "find (\<lambda>r. fst r = s) (seen w) = Some (s, u)"
      by (simp add: bijective_table_def find_by_fst)
    moreover from h have "MatchString linkTemplate s" "fst (arrive w) = None"
      by (simp_all add: MatchString_linkTemplate arrive_no_fault)
    ultimately show ?thesis by (simp add: Get_found)
  qed
  from invalid absent present show ?thesis by blast
qed

theorem C6_witness:
  "(fst (Get ''@5gfh35^Gdfh&EWR'' (world_of [] [] 0)) = (None, Some ErrInvalidLink) \<and>
    \<not> (length ''@5gfh35^Gdfh&EWR'' = 10 \<and> set ''@5gfh35^Gdfh&EWR'' \<subseteq> set word_chars)) \<and>
   (length ''123_abcABC'' = 10 \<and> set ''123_abcABC'' \<subseteq> set word_chars \<and>
    no_fault (world_of [] [] 0) \<and> ''123_abcABC'' \<notin> set (map fst (seen (world_of [] [] 0))) \<and>
    fst (Get ''123_abcABC'' (world_of [] [] 0)) = (None, Some ErrURLNotFound)) \<and>
   (length ''0123456789'' = 10 \<and> set ''0123456789'' \<subseteq> set word_chars \<and>
    no_fault (world_of [(''0123456789'', ''a.bc'')] [] 10) \<and>
    bijective_table (links (world_of [(''0123456789'', ''a.bc'')] [] 10)) \<and>
    (''0123456789'', ''a.bc'') \<in> set (seen (world_of [(''0123456789'', ''a.bc'')] [] 10)) \<and>
    fst (Get ''0123456789'' (world_of [(''0123456789'', ''a.bc'')] [] 10)) = (Some ''a.bc'', None))"
  using C6_get_outcomes [of "''@5gfh35^Gdfh&EWR''" "world_of [] [] 0"]
    C6_get_outcomes [of "''123_abcABC''" "world_of [] [] 0"]
    C6_get_outcomes [of "''0123456789''" "world_of [(''0123456789'', ''a.bc'')] [] 10" "''a.bc''"]
  by (simp add: no_fault_def seen_world_of bijective_table_def word_chars_def)

text \<open>
  C7. For every string the URL pattern does not match, \<^verbatim>\<open>Create\<close> fails with
  \<^verbatim>\<open>ErrInvalidURL\<close> and the world is untouched: no row is inserted, and no statement
  is sent to the database (no event of the schedule is used, no random value drawn).
\<close>

theorem C7_invalid_url_rejected_before_store:
  assumes "\<not> MatchString URLTemplate s"
  shows "Create s w = Some ((None, Some ErrInvalidURL), w)"
  using assms by (simp add: Create_def)

theorem C7_witness:
  "\<not> MatchString URLTemplate ''this is not a URL'' \<and>
   Create ''this is not a URL'' (world_of [] [Fault ''down''] 0) =
     Some ((None, Some ErrInvalidURL), world_of [] [Fault ''down''] 0)"
  using C7_invalid_url_rejected_before_store [of "''this is not a URL''" "world_of [] [Fault ''down''] 0"]
  by (simp add: url_examples)

text \<open>
  C8. Every code the generator makes is exactly ten characters of the alphabet, the
  alphabet has 63 distinct characters, which are those of \<^verbatim>\<open>[0-9A-Za-z_]\<close>, so the
  code matches \<^verbatim>\<open>linkTemplate\<close>; and so does every code the loop of \<^verbatim>\<open>Create\<close>
  returns.
\<close>

theorem C8_generated_codes_well_formed:
  "length (fst (generateRandomCharacters lengthLink g)) = 10 \<and>
   set (fst (generateRandomCharacters lengthLink g)) \<subseteq> set alphabet \<and>
   length alphabet = 63 \<and> distinct alphabet \<and> set alphabet = set word_chars \<and>
   MatchString linkTemplate (fst (generateRandomCharacters lengthLink g)) \<and>
   (Create_loop url w = Some ((Some c, None), w') \<longrightarrow> MatchString linkTemplate c)"
proof -
  have "MatchString linkTemplate (fst (generateRandomCharacters lengthLink g))"
    by (rule generated_link_ok [of g _ "snd (generateRandomCharacters lengthLink g)"]) simp
  moreover have "length (fst (generateRandomCharacters lengthLink g)) = 10"
    by (simp add: generateRandomCharacters_length lengthLink_def)
  ultimately show ?thesis
    using generateRandomCharacters_set [of lengthLink g] Create_loop_row [of url w c w']
    by (simp add: length_alphabet distinct_alphabet set_alphabet)
qed

theorem C8_witness:
  "fst (generateRandomCharacters lengthLink (siterate Suc 10)) = ''ABCDEFGHIJ'' \<and>
   Create_loop ''a.bc'' (world_of [(''0123456789'', ''x.yz'')] [] 10) =
     Some ((Some ''ABCDEFGHIJ'', None),
           world_of [(''0123456789'', ''x.yz''), (''ABCDEFGHIJ'', ''a.bc'')] [] 20) \<and>
   MatchString linkTemplate (fst (generateRandomCharacters lengthLink (siterate Suc 10))) \<and>
   MatchString linkTemplate ''ABCDEFGHIJ''"
  using C8_generated_codes_well_formed [of "siterate Suc 10" "''a.bc''"
      "world_of [(''0123456789'', ''x.yz'')] [] 10" "''ABCDEFGHIJ''"
      "world_of [(''0123456789'', ''x.yz''), (''ABCDEFGHIJ'', ''a.bc'')] [] 20"]
  by (simp add: draw_10 collision_second)

text \<open>
  C9, as stated: every URL the validator accepts is at most 2048 characters long.
  The pattern has no bound on the length: \<^verbatim>\<open>a.b\<close> followed by 2046 times \<^verbatim>\<open>c\<close> is
  accepted and is 2049 characters long.
\<close>

theorem C9_counterexample:
  "MatchString URLTemplate (''a.b'' @ replicate 2046 (CHR ''c'')) \<and>
   \<not> length (''a.b'' @ replicate 2046 (CHR ''c'')) \<le> 2048"
  using URLTemplate_long [of 2045] by simp

text \<open>
  C9, amended: the validator sets no limit on the length of a URL; the limit of 2048
  characters is the column's. For every string longer than 2048 characters, on a
  table whose URLs fit the column, \<^verbatim>\<open>Create\<close> returns, with no response and the
  error \<^verbatim>\<open>ErrInvalidURL\<close> or \<^verbatim>\<open>ErrReqProc\<close>, and the table it leaves has no row
  for the string.
\<close>

theorem C9_long_url_never_stored:
  assumes "2048 < length u" and "urls_fit (links w)"
  shows "\<exists>e w'. Create u w = Some ((None, Some e), w') \<and> (e = ErrInvalidURL \<or> e = ErrReqProc) \<and>
            u \<notin> set (map snd (links w'))"
proof -
  have fit: "urls_fit (seen w)"
    unfolding seen_def using insert_row_urls_fit assms(2) by (rule arrive_keeps)
  have absent: "u \<notin> set (map snd t)" if "urls_fit t" for t
    using that assms(1) by (auto simp: urls_fit_def list_all_iff)
  have "\<exists>e w'. Create u w = Some ((None, Some e), w') \<and> (e = ErrInvalidURL \<or> e = ErrReqProc)"
  proof (cases "MatchString URLTemplate u")
    case False
    then show ?thesis by (simp add: Create_invalid)
  next
    case True
    show ?thesis
    proof (cases "fst (arrive w)")
      case (Some m)
      with True show ?thesis by (simp add: Create_fault)
    next
      case None
      from absent [OF fit] have "find (\<lambda>r. snd r = u) (seen w) = None"
        by (simp add: find_None_snd)
      with True None have "Create u w = Create_loop u (snd (arrive w))"
        by (rule Create_absent)
      with Create_loop_long [OF assms(1), of "snd (arrive w)"] show ?thesis by auto
    qed
  qed
  then obtain e w' where ret: "Create u w = Some ((None, Some e), w')"
    and e: "e = ErrInvalidURL \<or> e = ErrReqProc" by blast
  have "urls_fit (links w')"
    using insert_row_urls_fit ret assms(2) by (rule Create_keeps)
  with ret e absent show ?thesis by blast
qed

theorem C9_witness:
  "2048 < length (''a.b'' @ replicate 2046 (CHR ''c'')) \<and> urls_fit (links (world_of [] [] 0)) \<and>
   (\<exists>e w'. Create (''a.b'' @ replicate 2046 (CHR ''c'')) (world_of [] [] 0) = Some ((None, Some e), w') \<and>
      (e = ErrInvalidURL \<or> e = ErrReqProc) \<and>
      ''a.b'' @ replicate 2046 (CHR ''c'') \<notin> set (map snd (links w')))"
  using C9_long_url_never_stored [of "''a.b'' @ replicate 2046 (CHR ''c'')" "world_of [] [] 0"]
  by (simp add: urls_fit_def)

text \<open>
  C10. \<^verbatim>\<open>Create\<close> and \<^verbatim>\<open>Get\<close> return a response or an error, never both and never
  neither: the response is \<^verbatim>\<open>nil\<close> exactly when the error is not. The errors of
  \<^verbatim>\<open>Create\<close> are \<^verbatim>\<open>ErrInvalidURL\<close> and \<^verbatim>\<open>ErrReqProc\<close>; those of \<^verbatim>\<open>Get\<close> are
  \<^verbatim>\<open>ErrInvalidLink\<close>, \<^verbatim>\<open>ErrURLNotFound\<close> and \<^verbatim>\<open>ErrReqProc\<close>.
\<close>

theorem C10_response_xor_error:
  "(Create u w = Some ((resp, err), w') \<longrightarrow>
      (resp = None \<longleftrightarrow> err \<noteq> None) \<and>
      (err = None \<or> err = Some ErrInvalidURL \<or> err = Some ErrReqProc)) \<and>
   (Get l v = ((resp', err'), v') \<longrightarrow>
      (resp' = None \<longleftrightarrow> err' \<noteq> None) \<and>
      (err' = None \<or> err' = Some ErrInvalidLink \<or> err' = Some ErrURLNotFound \<or>
       err' = Some ErrReqProc))"
proof -
  have create: "(resp = None \<longleftrightarrow> err \<noteq> None) \<and>
      (err = None \<or> err = Some ErrInvalidURL \<or> err = Some ErrReqProc)"
    if "Create u w = Some ((resp, err), w')"
    using that
  proof (cases rule: Create_paths)
    case allocated
    from Create_loop_reply [OF allocated(4)] show ?thesis by auto
  qed simp_all
  have get: "(resp' = None \<longleftrightarrow> err' \<noteq> None) \<and>
      (err' = None \<or> err' = Some ErrInvalidLink \<or> err' = Some ErrURLNotFound \<or>
       err' = Some ErrReqProc)"
    if "Get l v = ((resp', err'), v')"
    using that
    by (auto simp: Get_def select_original_url_eq split: if_splits option.splits)
  from create get show ?thesis by blast
qed

theorem C10_witness:
  "Create ''a.bc'' (world_of [] [] 0) =
     Some ((Some ''0123456789'', None), world_of [(''0123456789'', ''a.bc'')] [] 10) \<and>
   Get ''123_abcABC'' (world_of [] [] 0) = ((None, Some ErrURLNotFound), world_of [] [] 0) \<and>
   ((Some ''0123456789'' = None) = ((None :: service_error option) \<noteq> None)) \<and>
   (((None :: string option) = None) = (Some ErrURLNotFound \<noteq> None))"
  using C10_response_xor_error [of "''a.bc''" "world_of [] [] 0" "Some ''0123456789''" None
      "world_of [(''0123456789'', ''a.bc'')] [] 10" "''123_abcABC''" "world_of [] [] 0"
      None "Some ErrURLNotFound" "world_of [] [] 0"]
  by (simp add: Create_example Get_absent link_examples arrive_world_of seen_world_of)

end
